theory Spec2Isabelle
  imports Main "HOL-Library.Sublist"
begin

section \<open>Strings of the source language\<close>

text \<open>
  The TypeScript source works on JavaScript strings, sequences of UTF-16 code units.
  A \<^typ>\<open>char\<close> stands for one code unit below 256 (the Latin-1 range), so
  \<^const>\<open>length\<close> counts what \<^verbatim>\<open>String.prototype.length\<close> counts there. In that range the
  line terminators of ECMAScript are LF and CR, and its white space is TAB, LF, VT, FF,
  CR, SP and NBSP.
\<close>

definition isLineTerminator :: "char \<Rightarrow> bool" where
  "isLineTerminator c \<longleftrightarrow> c = CHR 0x0A \<or> c = CHR 0x0D"

definition isWhiteSpace :: "char \<Rightarrow> bool" where
  "isWhiteSpace c \<longleftrightarrow>
     c = CHR 0x09 \<or> c = CHR 0x0A \<or> c = CHR 0x0B \<or> c = CHR 0x0C \<or> c = CHR 0x0D \<or>
     c = CHR 0x20 \<or> c = CHR 0xA0"

definition isDigit :: "char \<Rightarrow> bool" where
  "isDigit c \<longleftrightarrow> (48::nat) \<le> of_char c \<and> of_char c \<le> (57::nat)"

text \<open>\<^verbatim>\<open>s.trim()\<close>: white space and line terminators removed at both ends.\<close>

definition trim :: "string \<Rightarrow> string" where
  "trim s = rev (dropWhile isWhiteSpace (rev (dropWhile isWhiteSpace s)))"

text \<open>\<^verbatim>\<open>s.startsWith(p)\<close> and \<^verbatim>\<open>s.endsWith(p)\<close>.\<close>

definition startsWith :: "string \<Rightarrow> string \<Rightarrow> bool" where
  "startsWith s p \<longleftrightarrow> take (length p) s = p"

definition endsWith :: "string \<Rightarrow> string \<Rightarrow> bool" where
  "endsWith s p \<longleftrightarrow> length p \<le> length s \<and> drop (length s - length p) s = p"

text \<open>\<^verbatim>\<open>s.substring(n)\<close> for a constant \<open>n \<ge> 0\<close>.\<close>

definition substring :: "string \<Rightarrow> nat \<Rightarrow> string" where
  "substring s n = drop n s"

text \<open>
  \<^verbatim>\<open>s.slice(a, -b)\<close> for constants \<open>a, b > 0\<close>: the code units from index \<open>a\<close> up to
  index \<open>length s - b\<close>, and the empty string when that range is empty.
\<close>

definition slice :: "string \<Rightarrow> nat \<Rightarrow> nat \<Rightarrow> string" where
  "slice s a b = take ((length s - b) - a) (drop a s)"

text \<open>
  \<^verbatim>\<open>s.toLowerCase()\<close> on code units below 256: the ASCII capitals and the Latin-1
  capitals U+00C0 to U+00DE (the multiplication sign U+00D7 apart) move up by 32.
\<close>

definition toLowerChar :: "char \<Rightarrow> char" where
  "toLowerChar c =
     (let n = (of_char c :: nat)
      in if (65 \<le> n \<and> n \<le> 90) \<or> (192 \<le> n \<and> n \<le> 222 \<and> n \<noteq> 215)
         then char_of (n + 32) else c)"

definition toLowerCase :: "string \<Rightarrow> string" where
  "toLowerCase s = map toLowerChar s"

text \<open>\<^verbatim>\<open>s.split('\n')\<close>: never empty, the empty string gives one empty line.\<close>

fun split_newline_from :: "string \<Rightarrow> string \<Rightarrow> string list" where
  "split_newline_from cur [] = [cur]"
| "split_newline_from cur (c # cs) =
     (if c = CHR 0x0A then cur # split_newline_from [] cs
      else split_newline_from (cur @ [c]) cs)"

definition split_newline :: "string \<Rightarrow> string list" where
  "split_newline s = split_newline_from [] s"

text \<open>\<^verbatim>\<open>lines.join('\n')\<close>.\<close>

fun join_newline :: "string list \<Rightarrow> string" where
  "join_newline [] = []"
| "join_newline [l] = l"
| "join_newline (l # m # ls) = l @ CHR 0x0A # join_newline (m # ls)"

section \<open>The regular expression of parseRichText\<close>

text \<open>
  \<^verbatim>\<open>/(\*\*.*?\*\*|\*.*?\*|`.*?`)/g\<close> tried at the start of a string. A lazy \<^verbatim>\<open>.*?\<close>
  followed by a literal \<open>d\<close> takes the fewest code units, none of them a line
  terminator, after which \<open>d\<close> stands; the result is the number of code units matched,
  \<open>d\<close> included.
\<close>

fun lazy_dot_until :: "string \<Rightarrow> string \<Rightarrow> nat option" where
  "lazy_dot_until d [] = (if startsWith [] d then Some (length d) else None)"
| "lazy_dot_until d (c # cs) =
     (if startsWith (c # cs) d then Some (length d)
      else if isLineTerminator c then None
      else map_option Suc (lazy_dot_until d cs))"

definition match_delimited :: "string \<Rightarrow> string \<Rightarrow> nat option" where
  "match_delimited d s =
     (if startsWith s d
      then map_option (\<lambda>n. length d + n) (lazy_dot_until d (drop (length d) s))
      else None)"

text \<open>The alternatives in the order of the pattern; the first that matches wins.\<close>

definition regex_exec :: "string \<Rightarrow> nat option" where
  "regex_exec s =
     (case match_delimited ''**'' s of
        Some n \<Rightarrow> Some n
      | None \<Rightarrow>
          (case match_delimited ''*'' s of
             Some n \<Rightarrow> Some n
           | None \<Rightarrow> match_delimited [CHR 0x60] s))"

text \<open>A match is never empty and never longer than the text, so the scan below ends.\<close>

lemma startsWith_length: "startsWith s p \<Longrightarrow> length p \<le> length s"
proof -
  assume "startsWith s p"
  then have "length (take (length p) s) = length p"
    by (simp add: startsWith_def)
  then show ?thesis by simp
qed

lemma lazy_dot_until_bounds:
  "lazy_dot_until d s = Some n \<Longrightarrow> length d \<le> n \<and> n \<le> length s"
proof (induction s arbitrary: n)
  case Nil
  then show ?case by (auto simp: startsWith_def split: if_splits)
next
  case (Cons c cs)
  show ?case
  proof (cases "startsWith (c # cs) d")
    case True
    then have "length d \<le> length (c # cs)"
      by (rule startsWith_length)
    with True Cons.prems show ?thesis by simp
  next
    case False
    with Cons.prems obtain m where m: "lazy_dot_until d cs = Some m" "n = Suc m"
      by (auto split: if_splits)
    from Cons.IH[OF m(1)] m(2) show ?thesis by simp
  qed
qed

lemma match_delimited_bounds:
  "match_delimited d s = Some n \<Longrightarrow> 2 * length d \<le> n \<and> n \<le> length s"
proof -
  assume a: "match_delimited d s = Some n"
  then have sw: "startsWith s d"
    by (auto simp: match_delimited_def split: if_splits)
  from a sw obtain m where m: "lazy_dot_until d (drop (length d) s) = Some m" "n = length d + m"
    by (auto simp: match_delimited_def)
  from sw have "length d \<le> length s"
    by (rule startsWith_length)
  moreover from lazy_dot_until_bounds[OF m(1)]
  have "length d \<le> m" and "m \<le> length s - length d" by simp_all
  ultimately show ?thesis using m(2) by linarith
qed

lemma regex_exec_bounds: "regex_exec s = Some n \<Longrightarrow> 2 \<le> n \<and> n \<le> length s"
  unfolding regex_exec_def
  by (auto split: option.splits dest!: match_delimited_bounds)

text \<open>
  \<^verbatim>\<open>text.split(regex)\<close> with one capture group around the whole pattern. The scan keeps
  the text since the end of the last match in \<open>pending\<close>; where the pattern matches, the
  pending text and the matched text are both pushed and the scan resumes after the
  match, where it does not, the scan moves on by one code unit. The text after the last
  match is pushed at the end, also when it is empty.
\<close>

function split_regex_from :: "string \<Rightarrow> string \<Rightarrow> string list" where
  "split_regex_from pending [] = [pending]"
| "split_regex_from pending (c # cs) =
     (case regex_exec (c # cs) of
        None \<Rightarrow> split_regex_from (pending @ [c]) cs
      | Some n \<Rightarrow> pending # take n (c # cs) # split_regex_from [] (drop n (c # cs)))"
  by pat_completeness auto
termination
  by (relation "measure (\<lambda>(pending, s). length s)")
     (auto dest!: regex_exec_bounds)

definition split_regex :: "string \<Rightarrow> string list" where
  "split_regex s = split_regex_from [] s"

section \<open>parseRichText\<close>

text \<open>
  A rich-text object \<^verbatim>\<open>{ type: 'text', text: { content }, annotations }\<close>: without
  annotations (\<open>Plain\<close>), or with \<^verbatim>\<open>bold\<close>, \<^verbatim>\<open>italic\<close> or \<^verbatim>\<open>code\<close> set.
\<close>

datatype rich_text = Plain string | Bold string | Italic string | Code string

fun content :: "rich_text \<Rightarrow> string" where
  "content (Plain s) = s"
| "content (Bold s) = s"
| "content (Italic s) = s"
| "content (Code s) = s"

datatype annotation = NoAnnotation | BoldAnnotation | ItalicAnnotation | CodeAnnotation

fun annotations :: "rich_text \<Rightarrow> annotation" where
  "annotations (Plain s) = NoAnnotation"
| "annotations (Bold s) = BoldAnnotation"
| "annotations (Italic s) = ItalicAnnotation"
| "annotations (Code s) = CodeAnnotation"

text \<open>The body of the loop over the parts, for a part that is not empty.\<close>

definition rich_text_of_part :: "string \<Rightarrow> rich_text" where
  "rich_text_of_part part =
     (if startsWith part ''**'' \<and> endsWith part ''**'' \<and> length part > 4
        then Bold (slice part 2 2)
      else if startsWith part ''*'' \<and> endsWith part ''*'' \<and> length part > 2
        then Italic (slice part 1 1)
      else if startsWith part [CHR 0x60] \<and> endsWith part [CHR 0x60] \<and> length part > 2
        then Code (slice part 1 1)
      else Plain part)"

fun parts_loop :: "string list \<Rightarrow> rich_text list" where
  "parts_loop [] = []"
| "parts_loop (part # parts) =
     (if part = [] then parts_loop parts
      else rich_text_of_part part # parts_loop parts)"

definition parseRichText :: "string \<Rightarrow> rich_text list" where
  "parseRichText text = parts_loop (split_regex text)"

section \<open>markdownToBlocks\<close>

text \<open>
  A Notion block object, by its \<^verbatim>\<open>type\<close>; each carries its \<^verbatim>\<open>rich_text\<close>, and a code
  block its \<^verbatim>\<open>language\<close> as well.
\<close>

datatype block =
    Heading_1 "rich_text list"
  | Heading_2 "rich_text list"
  | Heading_3 "rich_text list"
  | Bulleted_list_item "rich_text list"
  | Numbered_list_item "rich_text list"
  | Quote "rich_text list"
  | Paragraph "rich_text list"
  | Code_block "rich_text list" string

fun block_type :: "block \<Rightarrow> string" where
  "block_type (Heading_1 r) = ''heading_1''"
| "block_type (Heading_2 r) = ''heading_2''"
| "block_type (Heading_3 r) = ''heading_3''"
| "block_type (Bulleted_list_item r) = ''bulleted_list_item''"
| "block_type (Numbered_list_item r) = ''numbered_list_item''"
| "block_type (Quote r) = ''quote''"
| "block_type (Paragraph r) = ''paragraph''"
| "block_type (Code_block r l) = ''code''"

text \<open>
  \<^verbatim>\<open>/^\d+\.\s/\<close> at the start of a string: the length of the match. The greedy
  \<^verbatim>\<open>\d+\<close> takes every leading digit; giving one back leaves a digit where the period
  must stand, so only the longest run of digits can match.
\<close>

definition match_numbered :: "string \<Rightarrow> nat option" where
  "match_numbered s =
     (let ds = takeWhile isDigit s
      in if ds \<noteq> [] \<and>
            (case dropWhile isDigit s of
               c1 # c2 # rest \<Rightarrow> c1 = CHR ''.'' \<and> isWhiteSpace c2
             | _ \<Rightarrow> False)
         then Some (length ds + 2) else None)"

text \<open>The variables of the loop over the lines.\<close>

record scan_state =
  blocks :: "block list"
  inCodeBlock :: bool
  codeBlockLanguage :: string
  codeBlockContent :: "string list"

definition initial_state :: scan_state where
  "initial_state =
     \<lparr>blocks = [], inCodeBlock = False, codeBlockLanguage = ''plain text'',
      codeBlockContent = []\<rparr>"

definition push :: "block \<Rightarrow> scan_state \<Rightarrow> scan_state" where
  "push b st = st\<lparr>blocks := blocks st @ [b]\<rparr>"

text \<open>\<^verbatim>\<open>a || b\<close> on strings: the empty string is the only falsy one.\<close>

definition or_else :: "string \<Rightarrow> string \<Rightarrow> string" where
  "or_else a b = (if a = [] then b else a)"

text \<open>One pass of the loop body on a line.\<close>

definition process_line :: "scan_state \<Rightarrow> string \<Rightarrow> scan_state" where
  "process_line st line =
     (if startsWith (trim line) ''```'' then
        (if inCodeBlock st then
           (push (Code_block [Plain (join_newline (codeBlockContent st))]
                    (or_else (toLowerCase (codeBlockLanguage st)) ''plain text'')) st)
             \<lparr>inCodeBlock := False, codeBlockContent := [],
              codeBlockLanguage := ''plain text''\<rparr>
         else
           (let lang = trim (substring (trim line) 3)
            in st\<lparr>inCodeBlock := True,
                  codeBlockLanguage := (if lang = [] then ''plain text'' else lang)\<rparr>))
      else if inCodeBlock st then
        st\<lparr>codeBlockContent := codeBlockContent st @ [line]\<rparr>
      else
        (let trimmed = trim line
         in if trimmed = [] then st
            else if startsWith trimmed ''# '' then
              push (Heading_1 [Plain (substring trimmed 2)]) st
            else if startsWith trimmed ''## '' then
              push (Heading_2 [Plain (substring trimmed 3)]) st
            else if startsWith trimmed ''### '' then
              push (Heading_3 [Plain (substring trimmed 4)]) st
            else if startsWith trimmed ''- '' then
              push (Bulleted_list_item (parseRichText (substring trimmed 2))) st
            else
              (case match_numbered trimmed of
                 Some n \<Rightarrow> push (Numbered_list_item (parseRichText (drop n trimmed))) st
               | None \<Rightarrow>
                   if startsWith trimmed ''> '' then
                     push (Quote (parseRichText (substring trimmed 2))) st
                   else push (Paragraph (parseRichText trimmed)) st)))"

definition scan_lines :: "scan_state \<Rightarrow> string list \<Rightarrow> scan_state" where
  "scan_lines st ls = foldl process_line st ls"

definition markdownToBlocks :: "string \<Rightarrow> block list" where
  "markdownToBlocks markdown = blocks (scan_lines initial_state (split_newline markdown))"

text \<open>
  The invariant of the loop: outside a code block the buffered content and language are
  the initial ones.
\<close>

definition idle :: "scan_state \<Rightarrow> bool" where
  "idle st \<longleftrightarrow>
     (\<not> inCodeBlock st \<longrightarrow> codeBlockContent st = [] \<and> codeBlockLanguage st = ''plain text'')"

section \<open>createPage\<close>

text \<open>
  The part of \<^verbatim>\<open>createPage\<close> up to the request handed to \<^verbatim>\<open>notion.pages.create\<close>.
  The defaults of \<^verbatim>\<open>config.notion\<close> are parameters; an absent identifier is the empty
  string, which \<^verbatim>\<open>||\<close> and \<^verbatim>\<open>!\<close> treat as they treat \<^verbatim>\<open>undefined\<close>. The request is
  the parent (its key and identifier), the title property (its name and the title) and
  the children. \<open>NoParentId\<close> is the error thrown for a missing parent identifier;
  \<open>TypeError\<close> is what \<^verbatim>\<open>split('\n')[0].trim()\<close> would throw on an empty array.
\<close>

datatype error = NoParentId | TypeError

record page_request =
  parent :: "string \<times> string"
  properties :: "string \<times> string"
  children :: "block list"

definition createPage ::
  "string \<Rightarrow> string \<Rightarrow> string \<Rightarrow> string \<Rightarrow> (string \<times> string) option \<Rightarrow> error + page_request"
where
  "createPage defaultParentType defaultParentId title contentMarkdown parentConfig =
     (let parentType = (case parentConfig of None \<Rightarrow> defaultParentType
                        | Some (t, i) \<Rightarrow> or_else t defaultParentType);
          parentId = (case parentConfig of None \<Rightarrow> defaultParentId
                      | Some (t, i) \<Rightarrow> or_else i defaultParentId)
      in if parentId = [] then Inl NoParentId
         else
           (let children0 = markdownToBlocks contentMarkdown
            in case split_newline contentMarkdown of
                 [] \<Rightarrow> Inl TypeError
               | l # ls \<Rightarrow>
                   (let firstLine = trim l;
                        pageTitle = (if startsWith firstLine ''# ''
                                     then substring firstLine 2 else title);
                        children1 =
                          (if startsWith firstLine ''# '' \<and> children0 \<noteq> [] \<and>
                              block_type (hd children0) = ''heading_1''
                           then tl children0 else children0)
                    in Inr \<lparr>parent =
                              (if parentType = ''database'' then (''database_id'', parentId)
                               else (''page_id'', parentId)),
                            properties =
                              (if parentType = ''database'' then (''Name'', pageTitle)
                               else (''title'', pageTitle)),
                            children = children1\<rparr>)))"

section \<open>Properties of the inline parser\<close>

subsection \<open>Runs and their contents\<close>

lemma content_rich_text_of_part: "part \<noteq> [] \<Longrightarrow> content (rich_text_of_part part) \<noteq> []"
  by (auto simp: rich_text_of_part_def slice_def)

lemma parts_loop_elem:
  "r \<in> set (parts_loop ps) \<Longrightarrow> \<exists>p\<in>set ps. p \<noteq> [] \<and> r = rich_text_of_part p"
  by (induction ps) (auto split: if_splits)

lemma concat_split_regex_from: "concat (split_regex_from pending s) = pending @ s"
proof (induction pending s rule: split_regex_from.induct)
  case (1 pending)
  then show ?case by simp
next
  case (2 pending c cs)
  then show ?case
    by (cases "regex_exec (c # cs)") simp_all
qed

lemma match_delimited_no_start:
  "d \<noteq> [] \<Longrightarrow> (s = [] \<or> hd s \<noteq> hd d) \<Longrightarrow> match_delimited d s = None"
  by (cases s; cases d) (auto simp: match_delimited_def startsWith_def)

lemma regex_exec_no_start:
  "s = [] \<or> (hd s \<noteq> CHR ''*'' \<and> hd s \<noteq> CHR 0x60) \<Longrightarrow> regex_exec s = None"
  by (auto simp: regex_exec_def match_delimited_no_start)

lemma split_regex_from_no_delimiters:
  "CHR ''*'' \<notin> set s \<Longrightarrow> CHR 0x60 \<notin> set s \<Longrightarrow> split_regex_from pending s = [pending @ s]"
proof (induction s arbitrary: pending)
  case Nil
  then show ?case by simp
next
  case (Cons c cs)
  then have "regex_exec (c # cs) = None"
    by (intro regex_exec_no_start) auto
  with Cons show ?case by simp
qed

lemma parseRichText_plain:
  "s \<noteq> [] \<Longrightarrow> CHR ''*'' \<notin> set s \<Longrightarrow> CHR 0x60 \<notin> set s \<Longrightarrow> parseRichText s = [Plain s]"
proof -
  assume ne: "s \<noteq> []" and st: "CHR ''*'' \<notin> set s" and bt: "CHR 0x60 \<notin> set s"
  from ne obtain c cs where s: "s = c # cs" by (cases s) auto
  with st bt have c: "c \<noteq> CHR ''*''" "c \<noteq> CHR 0x60" by auto
  have "rich_text_of_part s = Plain s"
    using c by (simp add: rich_text_of_part_def startsWith_def s)
  with ne show ?thesis
    by (simp add: parseRichText_def split_regex_def split_regex_from_no_delimiters[OF st bt])
qed

lemma parseRichText_content_nonempty:
  "t \<noteq> [] \<Longrightarrow> concat (map content (parseRichText t)) \<noteq> []"
proof -
  assume ne: "t \<noteq> []"
  have "concat (split_regex t) = t"
    by (simp add: split_regex_def concat_split_regex_from)
  with ne obtain p where p: "p \<in> set (split_regex t)" "p \<noteq> []"
    by (metis concat_eq_Nil_conv)
  have "\<And>ps. p \<in> set ps \<Longrightarrow> rich_text_of_part p \<in> set (parts_loop ps)"
  proof -
    fix ps show "p \<in> set ps \<Longrightarrow> rich_text_of_part p \<in> set (parts_loop ps)"
      using p(2) by (induction ps) auto
  qed
  from this[OF p(1)] have "rich_text_of_part p \<in> set (parseRichText t)"
    by (simp add: parseRichText_def)
  moreover have "content (rich_text_of_part p) \<noteq> []"
    using p(2) by (rule content_rich_text_of_part)
  ultimately show ?thesis by auto
qed

text \<open>
  Claim C1: a delimited match with an empty payload is emitted as Plain text and never as
  a Bold, Italic or Code run. The code breaks this on the line made of four asterisks:
  the pattern matches all four as an empty bold span, the bold branch refuses it for
  its length, and the italic branch that follows accepts it, so the line comes out as an
  Italic run holding two asterisks.
\<close>

theorem parseRichText_four_asterisks:
  "parseRichText ''****'' = [Italic ''**''] \<and>
   markdownToBlocks ''****'' = [Paragraph [Italic ''**'']]"
  by code_simp

text \<open>
  Claim C2, as stated, asks that no two adjacent runs have the same style. Two italic
  spans written one after the other give two adjacent Italic runs.
\<close>

theorem parseRichText_adjacent_italic:
  "parseRichText ''*a**b*'' = [Italic ''a'', Italic ''b''] \<and>
   annotations (parseRichText ''*a**b*'' ! 0) = annotations (parseRichText ''*a**b*'' ! 1)"
  by code_simp

text \<open>
  Claim C2, amended: for every input line, no run returned by parseRichText has empty
  content. (Adjacent runs of one style are not excluded.)
\<close>

theorem parseRichText_no_empty_run:
  "\<forall>r \<in> set (parseRichText text). content r \<noteq> []"
proof
  fix r assume "r \<in> set (parseRichText text)"
  then obtain p where "p \<noteq> []" "r = rich_text_of_part p"
    unfolding parseRichText_def by (blast dest: parts_loop_elem)
  then show "content r \<noteq> []" by (simp add: content_rich_text_of_part)
qed

text \<open>The theorem at the line \<open>a**b\<close>, whose middle run is the unmatched pair of asterisks.\<close>

theorem parseRichText_no_empty_run_witness:
  "Plain ''**'' \<in> set (parseRichText ''a**b'') \<and> content (parseRichText ''a**b'' ! 1) \<noteq> []"
proof -
  have e: "parseRichText ''a**b'' = [Plain ''a'', Plain ''**'', Plain ''b'']" by code_simp
  then have m: "parseRichText ''a**b'' ! 1 \<in> set (parseRichText ''a**b'')" by simp
  from parseRichText_no_empty_run[of "''a**b''"] m
  have "content (parseRichText ''a**b'' ! 1) \<noteq> []" by (rule bspec)
  with e show ?thesis by simp
qed

text \<open>
  Claim C9: for a line \<open>t\<close> that is not empty, if the concatenation of the contents
  of its runs holds neither an asterisk nor a backtick, parsing that concatenation gives
  exactly one Plain run holding it; in general a non-empty input without asterisk or
  backtick gives exactly one Plain run holding the whole input; the empty string gives
  no run.
\<close>

theorem parseRichText_reparse:
  "(t \<noteq> [] \<longrightarrow>
      (let c = concat (map content (parseRichText t))
       in CHR ''*'' \<notin> set c \<and> CHR 0x60 \<notin> set c \<longrightarrow> parseRichText c = [Plain c])) \<and>
   (s \<noteq> [] \<and> CHR ''*'' \<notin> set s \<and> CHR 0x60 \<notin> set s \<longrightarrow> parseRichText s = [Plain s]) \<and>
   parseRichText [] = []"
proof (intro conjI impI)
  assume "t \<noteq> []"
  then have "concat (map content (parseRichText t)) \<noteq> []"
    by (rule parseRichText_content_nonempty)
  then show "let c = concat (map content (parseRichText t))
       in CHR ''*'' \<notin> set c \<and> CHR 0x60 \<notin> set c \<longrightarrow> parseRichText c = [Plain c]"
    unfolding Let_def using parseRichText_plain by blast
next
  assume "s \<noteq> [] \<and> CHR ''*'' \<notin> set s \<and> CHR 0x60 \<notin> set s"
  then show "parseRichText s = [Plain s]" by (simp add: parseRichText_plain)
next
  show "parseRichText [] = []" by (simp add: parseRichText_def split_regex_def)
qed

text \<open>The theorem at a line with an italic and a code span.\<close>

theorem parseRichText_reparse_witness:
  "''x *y* `z`'' \<noteq> [] \<and>
   concat (map content (parseRichText ''x *y* `z`'')) = ''x y z'' \<and>
   CHR ''*'' \<notin> set ''x y z'' \<and> CHR 0x60 \<notin> set ''x y z'' \<and>
   parseRichText ''x y z'' = [Plain ''x y z'']"
proof -
  have c: "concat (map content (parseRichText ''x *y* `z`'')) = ''x y z''" by code_simp
  have "CHR ''*'' \<notin> set ''x y z'' \<and> CHR 0x60 \<notin> set ''x y z''" by simp
  with parseRichText_reparse[of "''x *y* `z`''" "''x y z''"] c show ?thesis
    by (simp add: Let_def)
qed

subsection \<open>Bold before italic\<close>

lemma startsWith_two:
  "startsWith (c # cs) [a, b] \<longleftrightarrow> c = a \<and> (\<exists>rest. cs = b # rest)"
  by (cases cs) (auto simp: startsWith_def)

lemma lazy_dot_until_bold:
  "\<forall>c\<in>set x. \<not> isLineTerminator c \<Longrightarrow> \<not> sublist ''**'' (x @ ''*'') \<Longrightarrow>
   lazy_dot_until ''**'' (x @ ''**'' @ r) = Some (length x + 2)"
proof (induction x)
  case Nil
  then show ?case by (simp add: startsWith_def)
next
  case (Cons c cs)
  from Cons.prems(2) have np: "\<not> prefix ''**'' (c # cs @ ''*'')"
    and ns: "\<not> sublist ''**'' (cs @ ''*'')"
    by (simp_all add: sublist_Cons_right)
  have "\<not> startsWith (c # cs @ ''**'' @ r) ''**''"
  proof
    assume "startsWith (c # cs @ ''**'' @ r) ''**''"
    then have "c = CHR ''*''" and "\<exists>rest. cs @ ''**'' @ r = CHR ''*'' # rest"
      by (simp_all add: startsWith_two)
    then have "prefix ''**'' (c # cs @ ''*'')"
      by (cases cs) auto
    with np show False ..
  qed
  moreover from Cons.prems(1) have "\<not> isLineTerminator c" by simp
  moreover from Cons.prems(1) ns have "lazy_dot_until ''**'' (cs @ ''**'' @ r) = Some (length cs + 2)"
    by (intro Cons.IH) simp_all
  ultimately show ?case by simp
qed

lemma rich_text_of_part_bold:
  "x \<noteq> [] \<Longrightarrow> rich_text_of_part (''**'' @ x @ ''**'') = Bold x"
  by (simp add: rich_text_of_part_def startsWith_def endsWith_def slice_def)

lemma regex_exec_bold_at:
  assumes "\<forall>c\<in>set x. \<not> isLineTerminator c" "\<not> sublist ''**'' (x @ ''*'')"
  shows "regex_exec (''**'' @ x @ ''**'' @ post) = Some (length x + 4)"
proof -
  have "match_delimited ''**'' (''**'' @ x @ ''**'' @ post) = Some (length x + 4)"
    using lazy_dot_until_bold[OF assms, of post]
    by (simp add: match_delimited_def startsWith_def)
  then show ?thesis by (simp add: regex_exec_def)
qed

lemma split_regex_from_skip:
  "CHR ''*'' \<notin> set pre \<Longrightarrow> CHR 0x60 \<notin> set pre \<Longrightarrow>
   split_regex_from pending (pre @ s) = split_regex_from (pending @ pre) s"
proof (induction pre arbitrary: pending)
  case Nil
  then show ?case by simp
next
  case (Cons c cs)
  then have "regex_exec (c # cs @ s) = None"
    by (intro regex_exec_no_start) auto
  with Cons show ?case by simp
qed

lemma rich_text_of_part_plain:
  "CHR ''*'' \<notin> set pre \<Longrightarrow> CHR 0x60 \<notin> set pre \<Longrightarrow> rich_text_of_part pre = Plain pre"
  by (cases pre) (auto simp: rich_text_of_part_def startsWith_def)

text \<open>
  Claim C5, as stated, says that a pair of asterisks is never read as two single
  asterisks that delimit italic spans. Inside a span opened by a single asterisk it is:
  in \<open>*a **b** c*\<close> the scan meets the single asterisk first, the italic form closes at
  the first asterisk of the pair, and the line comes out as three Italic runs without
  any Bold run.
\<close>

theorem parseRichText_pair_inside_italic:
  "parseRichText ''*a **b** c*'' = [Italic ''a '', Italic ''b'', Italic '' c'']"
  by code_simp

text \<open>
  Claim C5, amended: the line \<open>**a*b*c**\<close> parses to exactly one Bold run with content
  \<open>a*b*c\<close>. In general, where the text \<open>pre\<close> before a pair of asterisks holds
  neither an asterisk nor a backtick, and the payload \<open>x\<close> after the pair is not empty,
  holds no line terminator and has no two asterisks side by side nor one at its end,
  the line \<open>pre **x** post\<close> parses to \<open>pre\<close> as a Plain run (when it is not empty), then
  the single run Bold \<open>x\<close>, then the runs of \<open>post\<close> parsed on its own: at the place
  where the scan meets the pair the bold form wins, and the single asterisks inside
  \<open>x\<close> do not split the span.
\<close>

theorem parseRichText_bold_span:
  "parseRichText ''**a*b*c**'' = [Bold ''a*b*c''] \<and>
   (CHR ''*'' \<notin> set pre \<and> CHR 0x60 \<notin> set pre \<and>
    x \<noteq> [] \<and> (\<forall>c\<in>set x. \<not> isLineTerminator c) \<and> \<not> sublist ''**'' (x @ ''*'') \<longrightarrow>
      parseRichText (pre @ ''**'' @ x @ ''**'' @ post) =
        (if pre = [] then [] else [Plain pre]) @ Bold x # parseRichText post)"
proof (intro conjI impI)
  show "parseRichText ''**a*b*c**'' = [Bold ''a*b*c'']" by code_simp
next
  assume a: "CHR ''*'' \<notin> set pre \<and> CHR 0x60 \<notin> set pre \<and>
    x \<noteq> [] \<and> (\<forall>c\<in>set x. \<not> isLineTerminator c) \<and> \<not> sublist ''**'' (x @ ''*'')"
  then have r: "regex_exec (CHR ''*'' # CHR ''*'' # x @ CHR ''*'' # CHR ''*'' # post) =
      Some (length x + 4)"
    using regex_exec_bold_at[of x post] by simp
  have "split_regex (pre @ ''**'' @ x @ ''**'' @ post) =
      split_regex_from pre (''**'' @ x @ ''**'' @ post)"
    using a split_regex_from_skip[of pre "[]" "''**'' @ x @ ''**'' @ post"]
    by (simp add: split_regex_def)
  also have "\<dots> = pre # (''**'' @ x @ ''**'') # split_regex post"
  proof -
    define m where "m = ''**'' @ x @ ''**''"
    have l: "length m = length x + 4" by (simp add: m_def)
    have e: "CHR ''*'' # CHR ''*'' # x @ CHR ''*'' # CHR ''*'' # post = m @ post"
      by (simp add: m_def)
    have t: "take (length x + 4) (m @ post) = m" "drop (length x + 4) (m @ post) = post"
      using l by simp_all
    have "split_regex_from pre (CHR ''*'' # CHR ''*'' # x @ CHR ''*'' # CHR ''*'' # post) =
        pre # take (length x + 4) (m @ post) #
          split_regex_from [] (drop (length x + 4) (m @ post))"
      by (simp add: r e [symmetric])
    then show ?thesis by (simp only: t) (simp add: m_def split_regex_def)
  qed
  finally have s: "split_regex (pre @ ''**'' @ x @ ''**'' @ post) =
      pre # (''**'' @ x @ ''**'') # split_regex post" .
  from a have p: "rich_text_of_part pre = Plain pre"
    by (simp add: rich_text_of_part_plain)
  from a have "x \<noteq> []" by simp
  then have b: "rich_text_of_part (''**'' @ x @ ''**'') = Bold x"
    by (rule rich_text_of_part_bold)
  have "parts_loop (pre # (''**'' @ x @ ''**'') # split_regex post) =
      (if pre = [] then [] else [Plain pre]) @ Bold x # parts_loop (split_regex post)"
    using p b by simp
  then show "parseRichText (pre @ ''**'' @ x @ ''**'' @ post) =
      (if pre = [] then [] else [Plain pre]) @ Bold x # parseRichText post"
    by (simp only: parseRichText_def s)
qed

text \<open>
  The theorem at a bold span with an italic-looking payload, between plain text and an
  italic span.
\<close>

theorem parseRichText_bold_span_witness:
  "CHR ''*'' \<notin> set ''see '' \<and> CHR 0x60 \<notin> set ''see '' \<and> ''x *y* z'' \<noteq> [] \<and>
   \<not> sublist ''**'' (''x *y* z'' @ ''*'') \<and>
   parseRichText (''see '' @ ''**'' @ ''x *y* z'' @ ''**'' @ '' and *w*'') =
     [Plain ''see '', Bold ''x *y* z'', Plain '' and '', Italic ''w'']"
proof -
  have h: "CHR ''*'' \<notin> set ''see '' \<and> CHR 0x60 \<notin> set ''see '' \<and> ''x *y* z'' \<noteq> [] \<and>
      (\<forall>c\<in>set ''x *y* z''. \<not> isLineTerminator c) \<and> \<not> sublist ''**'' (''x *y* z'' @ ''*'')"
    by (simp add: isLineTerminator_def sublist_Cons_right)
  have p: "parseRichText '' and *w*'' = [Plain '' and '', Italic ''w'']" by code_simp
  from parseRichText_bold_span[of "''see ''" "''x *y* z''" "'' and *w*''"] h
  have "parseRichText (''see '' @ ''**'' @ ''x *y* z'' @ ''**'' @ '' and *w*'') =
      (if ''see '' = [] then [] else [Plain ''see '']) @ Bold ''x *y* z'' #
        parseRichText '' and *w*''"
    by blast
  with h p show ?thesis by simp
qed

section \<open>Properties of the block classifier\<close>

subsection \<open>Fenced code regions\<close>

lemma process_line_open:
  "\<not> inCodeBlock st \<Longrightarrow> startsWith (trim l) ''```'' \<Longrightarrow>
   process_line st l =
     st\<lparr>inCodeBlock := True,
        codeBlockLanguage :=
          (if trim (substring (trim l) 3) = [] then ''plain text''
           else trim (substring (trim l) 3))\<rparr>"
  by (simp add: process_line_def Let_def)

lemma process_line_close:
  "inCodeBlock st \<Longrightarrow> startsWith (trim l) ''```'' \<Longrightarrow>
   process_line st l =
     (push (Code_block [Plain (join_newline (codeBlockContent st))]
              (or_else (toLowerCase (codeBlockLanguage st)) ''plain text'')) st)
       \<lparr>inCodeBlock := False, codeBlockContent := [], codeBlockLanguage := ''plain text''\<rparr>"
  by (simp add: process_line_def)

lemma process_line_inside:
  "inCodeBlock st \<Longrightarrow> \<not> startsWith (trim l) ''```'' \<Longrightarrow>
   process_line st l = st\<lparr>codeBlockContent := codeBlockContent st @ [l]\<rparr>"
  by (simp add: process_line_def)

lemma scan_lines_append:
  "scan_lines st (xs @ ys) = scan_lines (scan_lines st xs) ys"
  by (simp add: scan_lines_def)

lemma scan_lines_Cons: "scan_lines st (l # ls) = scan_lines (process_line st l) ls"
  by (simp add: scan_lines_def)

lemma scan_lines_Nil: "scan_lines st [] = st"
  by (simp add: scan_lines_def)

lemma scan_lines_inside:
  "inCodeBlock st \<Longrightarrow> \<forall>l\<in>set body. \<not> startsWith (trim l) ''```'' \<Longrightarrow>
   scan_lines st body = st\<lparr>codeBlockContent := codeBlockContent st @ body\<rparr>"
proof (induction body arbitrary: st)
  case Nil
  then show ?case by (simp add: scan_lines_Nil)
next
  case (Cons l ls)
  then have "process_line st l = st\<lparr>codeBlockContent := codeBlockContent st @ [l]\<rparr>"
    by (simp add: process_line_inside)
  moreover have "scan_lines (st\<lparr>codeBlockContent := codeBlockContent st @ [l]\<rparr>) ls =
      (st\<lparr>codeBlockContent := codeBlockContent st @ [l]\<rparr>)
        \<lparr>codeBlockContent := codeBlockContent (st\<lparr>codeBlockContent := codeBlockContent st @ [l]\<rparr>) @ ls\<rparr>"
    using Cons.prems by (intro Cons.IH) simp_all
  ultimately show ?case by (simp add: scan_lines_Cons)
qed

text \<open>
  Claim C4: when the lines of a document are \<open>pre\<close>, then an opening fence met outside
  code-block mode, then lines none of which is a fence, the blocks returned are exactly
  the blocks of \<open>pre\<close>: the lines after the fence give no block, and the function
  returns (it has no failing branch).
\<close>

theorem markdownToBlocks_unterminated_fence:
  assumes "split_newline markdown = pre @ opening # body"
    and "\<not> inCodeBlock (scan_lines initial_state pre)"
    and "startsWith (trim opening) ''```''"
    and "\<forall>l\<in>set body. \<not> startsWith (trim l) ''```''"
  shows "markdownToBlocks markdown = blocks (scan_lines initial_state pre)"
proof -
  let ?st = "scan_lines initial_state pre"
  have o: "inCodeBlock (process_line ?st opening)"
    and b: "blocks (process_line ?st opening) = blocks ?st"
    using assms(2,3) by (simp_all add: process_line_open)
  have "scan_lines initial_state (pre @ opening # body) =
      scan_lines (process_line ?st opening) body"
    by (simp add: scan_lines_append scan_lines_Cons)
  also have "blocks \<dots> = blocks (process_line ?st opening)"
    using scan_lines_inside[OF o assms(4)] by simp
  finally show ?thesis using b by (simp add: markdownToBlocks_def assms(1))
qed

text \<open>
  The theorem at a paragraph followed by a fence that is never closed.
\<close>

theorem markdownToBlocks_unterminated_fence_witness:
  "split_newline (''a'' @ [CHR 0x0A] @ ''```py'' @ [CHR 0x0A] @ ''x = 1'') =
     [''a''] @ ''```py'' # [''x = 1''] \<and>
   startsWith (trim ''```py'') ''```'' \<and>
   markdownToBlocks (''a'' @ [CHR 0x0A] @ ''```py'' @ [CHR 0x0A] @ ''x = 1'') =
     [Paragraph [Plain ''a'']]"
proof -
  let ?md = "''a'' @ [CHR 0x0A] @ ''```py'' @ [CHR 0x0A] @ ''x = 1''"
  have s: "split_newline ?md = [''a''] @ ''```py'' # [''x = 1'']" by code_simp
  have p: "\<not> inCodeBlock (scan_lines initial_state [''a''])" by code_simp
  have f: "startsWith (trim ''```py'') ''```''" by code_simp
  have b: "\<forall>l\<in>set [''x = 1'']. \<not> startsWith (trim l) ''```''" by code_simp
  have r: "blocks (scan_lines initial_state [''a'']) = [Paragraph [Plain ''a'']]" by code_simp
  from markdownToBlocks_unterminated_fence[OF s p f b] s f r show ?thesis by simp
qed

lemma process_line_outside_fields:
  "\<not> inCodeBlock st \<Longrightarrow> \<not> startsWith (trim l) ''```'' \<Longrightarrow>
   inCodeBlock (process_line st l) = inCodeBlock st \<and>
   codeBlockContent (process_line st l) = codeBlockContent st \<and>
   codeBlockLanguage (process_line st l) = codeBlockLanguage st"
  by (simp add: process_line_def Let_def push_def split: option.splits)

lemma idle_process_line: "idle st \<Longrightarrow> idle (process_line st l)"
proof (cases "startsWith (trim l) ''```''")
  case True
  assume "idle st"
  show ?thesis
    by (cases "inCodeBlock st")
       (simp_all add: True process_line_open process_line_close idle_def push_def)
next
  case False
  assume i: "idle st"
  show ?thesis
  proof (cases "inCodeBlock st")
    case True
    with False show ?thesis by (simp add: process_line_inside idle_def)
  next
    case nin: False
    from process_line_outside_fields[OF nin False] i show ?thesis
      by (simp add: idle_def)
  qed
qed

lemma idle_scan_lines: "idle st \<Longrightarrow> idle (scan_lines st ls)"
  by (induction ls arbitrary: st) (simp_all add: scan_lines_Nil scan_lines_Cons idle_process_line)

lemma idle_initial_state: "idle initial_state"
  by (simp add: idle_def initial_state_def)

lemma process_line_blocks_prefix:
  "process_line (st\<lparr>blocks := b @ blocks st\<rparr>) l =
   (process_line st l)\<lparr>blocks := b @ blocks (process_line st l)\<rparr>"
  by (simp add: process_line_def Let_def push_def split: option.splits)

lemma scan_lines_blocks_prefix:
  "scan_lines (st\<lparr>blocks := b @ blocks st\<rparr>) ls =
   (scan_lines st ls)\<lparr>blocks := b @ blocks (scan_lines st ls)\<rparr>"
proof (induction ls arbitrary: st)
  case Nil
  then show ?case by (simp add: scan_lines_Nil)
next
  case (Cons l ls)
  then show ?case by (simp add: scan_lines_Cons process_line_blocks_prefix)
qed

lemma toLowerCase_eq_Nil: "toLowerCase s = [] \<longleftrightarrow> s = []"
  by (simp add: toLowerCase_def)

lemma toLowerCase_plain_text: "toLowerCase ''plain text'' = ''plain text''"
  by code_simp

text \<open>
  Claim C3, as stated, makes the language tag the trimmed text after the three
  backticks. The code lower-cases it when the block is emitted: the opening line
  \<open>```Python\<close> gives the tag \<open>python\<close>, while the trimmed text after the backticks
  is \<open>Python\<close>.
\<close>

theorem markdownToBlocks_language_case:
  "markdownToBlocks (''```Python'' @ [CHR 0x0A] @ ''```'') = [Code_block [Plain []] ''python''] \<and>
   trim (substring (trim ''```Python'') 3) = ''Python''"
  by code_simp

lemma fenced_region:
  assumes "idle st" "\<not> inCodeBlock st"
    and "startsWith (trim opening) ''```''"
    and "\<forall>l\<in>set body. \<not> startsWith (trim l) ''```''"
    and "startsWith (trim closing) ''```''"
  shows "scan_lines st (opening # body @ [closing]) =
     initial_state\<lparr>blocks := blocks st @
       [Code_block [Plain (join_newline body)]
          (let lang = trim (substring (trim opening) 3)
           in if lang = [] then ''plain text'' else toLowerCase lang)]\<rparr>"
proof -
  define L where "L = (if trim (substring (trim opening) 3) = [] then ''plain text''
           else trim (substring (trim opening) 3))"
  define st1 where "st1 = st\<lparr>inCodeBlock := True, codeBlockLanguage := L\<rparr>"
  have c0: "codeBlockContent st = []"
    using assms(1,2) by (simp add: idle_def)
  have s1: "process_line st opening = st1"
    using assms(2,3) by (simp add: process_line_open st1_def L_def)
  have in1: "inCodeBlock st1" by (simp add: st1_def)
  have s2: "scan_lines st1 body = st1\<lparr>codeBlockContent := body\<rparr>"
    using scan_lines_inside[OF in1 assms(4)] c0 by (simp add: st1_def)
  have lang: "or_else (toLowerCase L) ''plain text'' =
      (let lang = trim (substring (trim opening) 3)
       in if lang = [] then ''plain text'' else toLowerCase lang)"
    by (simp add: L_def or_else_def toLowerCase_eq_Nil toLowerCase_plain_text Let_def)
  have s3: "process_line (st1\<lparr>codeBlockContent := body\<rparr>) closing =
      initial_state\<lparr>blocks := blocks st @
        [Code_block [Plain (join_newline body)] (or_else (toLowerCase L) ''plain text'')]\<rparr>"
    using assms(5)
    by (simp add: process_line_close st1_def push_def initial_state_def)
  have "scan_lines st (opening # body @ [closing]) =
      process_line (scan_lines (process_line st opening) body) closing"
    by (simp add: scan_lines_def)
  then show ?thesis by (simp only: s1 s2 s3 lang)
qed

text \<open>
  Claim C3, amended: for every fenced region (an opening fence met outside code-block
  mode, lines none of which is a fence, a closing fence), the code block emitted has
  as language tag the text after the first three code units of the trimmed opening
  line, trimmed and lower-cased, or \<open>plain text\<close> when that text is empty; its content
  is the lines between the fences joined by line breaks, and it stands between the
  blocks of the lines before and those of the lines after. In particular the opening
  line \<open>```python\<close> gives the tag \<open>python\<close>.
\<close>

theorem markdownToBlocks_code_language:
  \<open>(split_newline markdown = pre @ opening # body @ closing # post \<and>
    \<not> inCodeBlock (scan_lines initial_state pre) \<and>
    startsWith (trim opening) ''```'' \<and>
    (\<forall>l\<in>set body. \<not> startsWith (trim l) ''```'') \<and>
    startsWith (trim closing) ''```'' \<longrightarrow>
    markdownToBlocks markdown =
      blocks (scan_lines initial_state pre) @
      Code_block [Plain (join_newline body)]
        (let lang = trim (substring (trim opening) 3)
         in if lang = [] then ''plain text'' else toLowerCase lang) #
      blocks (scan_lines initial_state post)) \<and>
   markdownToBlocks (''```python'' @ [CHR 0x0A] @ ''print("hi")'' @ [CHR 0x0A] @ ''```'') =
     [Code_block [Plain ''print("hi")''] ''python'']\<close>
proof (intro conjI impI)
  assume a: "split_newline markdown = pre @ opening # body @ closing # post \<and>
    \<not> inCodeBlock (scan_lines initial_state pre) \<and>
    startsWith (trim opening) ''```'' \<and>
    (\<forall>l\<in>set body. \<not> startsWith (trim l) ''```'') \<and>
    startsWith (trim closing) ''```''"
  let ?st = "scan_lines initial_state pre"
  let ?cb = "Code_block [Plain (join_newline body)]
        (let lang = trim (substring (trim opening) 3)
         in if lang = [] then ''plain text'' else toLowerCase lang)"
  have i: "idle ?st" by (simp add: idle_scan_lines idle_initial_state)
  from a have r: "scan_lines ?st (opening # body @ [closing]) =
      initial_state\<lparr>blocks := blocks ?st @ [?cb]\<rparr>"
    by (intro fenced_region[OF i]) simp_all
  have e: "initial_state\<lparr>blocks := blocks ?st @ [?cb]\<rparr> =
      initial_state\<lparr>blocks := (blocks ?st @ [?cb]) @ blocks initial_state\<rparr>"
    by (simp add: initial_state_def)
  have "scan_lines initial_state (pre @ (opening # body @ [closing]) @ post) =
      scan_lines (initial_state\<lparr>blocks := blocks ?st @ [?cb]\<rparr>) post"
    by (simp only: scan_lines_append r)
  then have "blocks (scan_lines initial_state (pre @ (opening # body @ [closing]) @ post)) =
      (blocks ?st @ [?cb]) @ blocks (scan_lines initial_state post)"
    by (simp only: e scan_lines_blocks_prefix) simp
  moreover from a have "split_newline markdown = pre @ (opening # body @ [closing]) @ post"
    by simp
  ultimately show "markdownToBlocks markdown =
      blocks ?st @ ?cb # blocks (scan_lines initial_state post)"
    by (simp only: markdownToBlocks_def) simp
next
  show \<open>markdownToBlocks (''```python'' @ [CHR 0x0A] @ ''print("hi")'' @ [CHR 0x0A] @ ''```'') =
     [Code_block [Plain ''print("hi")''] ''python'']\<close>
    by code_simp
qed

text \<open>
  The theorem at a document with a paragraph, a fenced region and a paragraph.
\<close>

theorem markdownToBlocks_code_language_witness:
  "markdownToBlocks (''x'' @ [CHR 0x0A] @ '' ```  JS '' @ [CHR 0x0A] @ ''a'' @ [CHR 0x0A] @
      [CHR 0x0A] @ '' b'' @ [CHR 0x0A] @ ''```'' @ [CHR 0x0A] @ ''y'') =
   [Paragraph [Plain ''x''], Code_block [Plain (''a'' @ [CHR 0x0A, CHR 0x0A] @ '' b'')] ''js'',
    Paragraph [Plain ''y'']]"
proof -
  let ?md = "''x'' @ [CHR 0x0A] @ '' ```  JS '' @ [CHR 0x0A] @ ''a'' @ [CHR 0x0A] @
      [CHR 0x0A] @ '' b'' @ [CHR 0x0A] @ ''```'' @ [CHR 0x0A] @ ''y''"
  have h1: "split_newline ?md = [''x''] @ '' ```  JS '' # [''a'', [], '' b''] @ ''```'' # [''y'']"
    by code_simp
  have h2: "\<not> inCodeBlock (scan_lines initial_state [''x''])" by code_simp
  have h3: "startsWith (trim '' ```  JS '') ''```''" by code_simp
  have h4: "\<forall>l\<in>set [''a'', [], '' b'']. \<not> startsWith (trim l) ''```''" by code_simp
  have h5: "startsWith (trim ''```'') ''```''" by code_simp
  have r: "blocks (scan_lines initial_state [''x'']) @
      Code_block [Plain (join_newline [''a'', [], '' b''])]
        (let lang = trim (substring (trim '' ```  JS '') 3)
         in if lang = [] then ''plain text'' else toLowerCase lang) #
      blocks (scan_lines initial_state [''y'']) =
      [Paragraph [Plain ''x''], Code_block [Plain (''a'' @ [CHR 0x0A, CHR 0x0A] @ '' b'')] ''js'',
       Paragraph [Plain ''y'']]"
    by code_simp
  from markdownToBlocks_code_language[of ?md "[''x'']" "'' ```  JS ''" "[''a'', [], '' b'']"
      "''```''" "[''y'']"] h1 h2 h3 h4 h5
  have "markdownToBlocks ?md = blocks (scan_lines initial_state [''x'']) @
      Code_block [Plain (join_newline [''a'', [], '' b''])]
        (let lang = trim (substring (trim '' ```  JS '') 3)
         in if lang = [] then ''plain text'' else toLowerCase lang) #
      blocks (scan_lines initial_state [''y''])"
    by blast
  then show ?thesis by (simp only: r)
qed

subsection \<open>Lines outside code regions\<close>

lemma process_line_outside_length:
  "\<not> inCodeBlock st \<Longrightarrow> \<not> startsWith (trim l) ''```'' \<Longrightarrow>
   length (blocks (process_line st l)) = length (blocks st) + (if trim l = [] then 0 else 1)"
  by (simp add: process_line_def Let_def push_def split: option.splits)

lemma scan_lines_no_fence:
  "\<not> inCodeBlock st \<Longrightarrow> \<forall>l\<in>set ls. \<not> startsWith (trim l) ''```'' \<Longrightarrow>
   \<not> inCodeBlock (scan_lines st ls) \<and>
   length (blocks (scan_lines st ls)) =
     length (blocks st) + length (filter (\<lambda>l. trim l \<noteq> []) ls)"
proof (induction ls arbitrary: st)
  case Nil
  then show ?case by (simp add: scan_lines_Nil)
next
  case (Cons l ls)
  from Cons.prems have nf: "\<not> startsWith (trim l) ''```''" by simp
  from process_line_outside_fields[OF Cons.prems(1) nf] Cons.prems(1)
  have n: "\<not> inCodeBlock (process_line st l)" by simp
  from Cons.prems(2) have "\<forall>l\<in>set ls. \<not> startsWith (trim l) ''```''" by simp
  from Cons.IH[OF n this] process_line_outside_length[OF Cons.prems(1) nf]
  show ?case by (simp add: scan_lines_Cons)
qed

text \<open>
  Claim C6: for every document none of whose lines is a fence, the number of blocks
  returned is the number of lines that are not empty after trimming; the empty document
  gives no block. The function is total: it has no failing branch.
\<close>

theorem markdownToBlocks_line_count:
  "((\<forall>l\<in>set (split_newline markdown). \<not> startsWith (trim l) ''```'') \<longrightarrow>
      length (markdownToBlocks markdown) =
        length (filter (\<lambda>l. trim l \<noteq> []) (split_newline markdown))) \<and>
   markdownToBlocks [] = []"
proof (intro conjI impI)
  assume "\<forall>l\<in>set (split_newline markdown). \<not> startsWith (trim l) ''```''"
  moreover have "\<not> inCodeBlock initial_state" "blocks initial_state = []"
    by (simp_all add: initial_state_def)
  ultimately show "length (markdownToBlocks markdown) =
      length (filter (\<lambda>l. trim l \<noteq> []) (split_newline markdown))"
    using scan_lines_no_fence[of initial_state "split_newline markdown"]
    by (simp add: markdownToBlocks_def)
next
  show "markdownToBlocks [] = []" by code_simp
qed

text \<open>
  The theorem at a document of four lines, one of them blank.
\<close>

theorem markdownToBlocks_line_count_witness:
  "split_newline (''# A'' @ [CHR 0x0A] @ ''  '' @ [CHR 0x0A] @ ''- b'' @ [CHR 0x0A] @ ''c'') =
     [''# A'', ''  '', ''- b'', ''c''] \<and>
   length (markdownToBlocks (''# A'' @ [CHR 0x0A] @ ''  '' @ [CHR 0x0A] @ ''- b'' @ [CHR 0x0A] @ ''c''))
     = 3"
proof -
  let ?md = "''# A'' @ [CHR 0x0A] @ ''  '' @ [CHR 0x0A] @ ''- b'' @ [CHR 0x0A] @ ''c''"
  have s: "split_newline ?md = [''# A'', ''  '', ''- b'', ''c'']" by code_simp
  have h: "\<forall>l\<in>set (split_newline ?md). \<not> startsWith (trim l) ''```''"
    unfolding s by code_simp
  have c: "length (filter (\<lambda>l. trim l \<noteq> []) (split_newline ?md)) = 3"
    unfolding s by code_simp
  from markdownToBlocks_line_count[of ?md] h
  have "length (markdownToBlocks ?md) = length (filter (\<lambda>l. trim l \<noteq> []) (split_newline ?md))"
    by blast
  with c s show ?thesis by simp
qed

lemma takeWhile_digits:
  "\<forall>c\<in>set ds. isDigit c \<Longrightarrow> takeWhile isDigit (ds @ CHR ''.'' # r) = ds"
  by (induction ds) (simp_all add: isDigit_def)

lemma dropWhile_digits:
  "\<forall>c\<in>set ds. isDigit c \<Longrightarrow> dropWhile isDigit (ds @ CHR ''.'' # r) = CHR ''.'' # r"
  by (induction ds) (simp_all add: isDigit_def)

lemma match_numbered_prefix:
  "ds \<noteq> [] \<Longrightarrow> \<forall>c\<in>set ds. isDigit c \<Longrightarrow>
   match_numbered (ds @ ''. '' @ rest) = Some (length ds + 2)"
proof -
  assume ne: "ds \<noteq> []" and dg: "\<forall>c\<in>set ds. isDigit c"
  have "takeWhile isDigit (ds @ CHR ''.'' # CHR '' '' # rest) = ds"
    using dg by (rule takeWhile_digits)
  moreover have "dropWhile isDigit (ds @ CHR ''.'' # CHR '' '' # rest) = CHR ''.'' # CHR '' '' # rest"
    using dg by (rule dropWhile_digits)
  ultimately show ?thesis
    using ne by (simp add: match_numbered_def isWhiteSpace_def)
qed

lemma startsWith_Cons: "startsWith (c # cs) (d # ds) \<Longrightarrow> c = d"
  by (simp add: startsWith_def)

text \<open>
  Claim C7: outside code-block mode, a line whose trimmed form is one or more digits, a
  period, a space and a remainder gives a numbered list item whose rich text is the
  parse of the remainder, whatever the number of digits (such a line starts with a
  digit, so no heading or bullet prefix matches it). In particular the line
  \<open>1. Open the **Settings** menu\<close> gives the runs Plain, Bold, Plain of the claim.
\<close>

theorem process_line_numbered:
  "(\<not> inCodeBlock st \<and> trim line = ds @ ''. '' @ rest \<and> ds \<noteq> [] \<and> (\<forall>c\<in>set ds. isDigit c) \<longrightarrow>
      process_line st line = push (Numbered_list_item (parseRichText rest)) st) \<and>
   markdownToBlocks ''1. Open the **Settings** menu'' =
     [Numbered_list_item [Plain ''Open the '', Bold ''Settings'', Plain '' menu'']]"
proof (intro conjI impI)
  assume a: "\<not> inCodeBlock st \<and> trim line = ds @ ''. '' @ rest \<and> ds \<noteq> [] \<and>
    (\<forall>c\<in>set ds. isDigit c)"
  then obtain d ds' where ds: "ds = d # ds'" by (cases ds) auto
  with a have d: "isDigit d" by simp
  then have dn: "d \<noteq> CHR 0x60" "d \<noteq> CHR ''#''" "d \<noteq> CHR ''-''"
    by (auto simp: isDigit_def)
  have t: "trim line = d # ds' @ ''. '' @ rest" using a ds by simp
  have nf: "\<not> startsWith (trim line) ''```''" "\<not> startsWith (trim line) ''# ''"
    "\<not> startsWith (trim line) ''## ''" "\<not> startsWith (trim line) ''### ''"
    "\<not> startsWith (trim line) ''- ''"
    unfolding t using dn by (auto dest: startsWith_Cons)
  have m: "match_numbered (trim line) = Some (length ds + 2)"
    using a match_numbered_prefix[of ds rest] by simp
  have ne: "trim line \<noteq> []" using t by simp
  have dr: "drop (Suc (Suc (length ds))) (trim line) = rest" using a by simp
  from a have "\<not> inCodeBlock st" by simp
  then show "process_line st line = push (Numbered_list_item (parseRichText rest)) st"
    by (simp add: process_line_def Let_def nf m ne dr)
next
  show "markdownToBlocks ''1. Open the **Settings** menu'' =
     [Numbered_list_item [Plain ''Open the '', Bold ''Settings'', Plain '' menu'']]"
    by code_simp
qed

text \<open>
  The theorem at an indented line with a two-digit number.
\<close>

theorem process_line_numbered_witness:
  "trim ''  12. a *b*'' = ''12'' @ ''. '' @ ''a *b*'' \<and> isDigit (CHR ''1'') \<and> isDigit (CHR ''2'') \<and>
   process_line initial_state ''  12. a *b*'' =
     push (Numbered_list_item [Plain ''a '', Italic ''b'']) initial_state"
proof -
  have h: "\<not> inCodeBlock initial_state \<and> trim ''  12. a *b*'' = ''12'' @ ''. '' @ ''a *b*'' \<and>
      ''12'' \<noteq> [] \<and> (\<forall>c\<in>set ''12''. isDigit c)"
    by code_simp
  have p: "parseRichText ''a *b*'' = [Plain ''a '', Italic ''b'']" by code_simp
  have d: "isDigit (CHR ''1'') \<and> isDigit (CHR ''2'')" by code_simp
  from process_line_numbered[of initial_state "''  12. a *b*''" "''12''" "''a *b*''"] h
  have "process_line initial_state ''  12. a *b*'' =
      push (Numbered_list_item (parseRichText ''a *b*'')) initial_state"
    by blast
  with h p d show ?thesis by simp
qed

lemma process_line_heading_1:
  "\<not> inCodeBlock st \<Longrightarrow> trim line = ''# '' @ rest \<Longrightarrow>
   process_line st line = push (Heading_1 [Plain rest]) st"
  by (simp add: process_line_def Let_def startsWith_def substring_def)

lemma process_line_heading_2:
  "\<not> inCodeBlock st \<Longrightarrow> trim line = ''## '' @ rest \<Longrightarrow>
   process_line st line = push (Heading_2 [Plain rest]) st"
  by (simp add: process_line_def Let_def startsWith_def substring_def)

lemma process_line_heading_3:
  "\<not> inCodeBlock st \<Longrightarrow> trim line = ''### '' @ rest \<Longrightarrow>
   process_line st line = push (Heading_3 [Plain rest]) st"
  by (simp add: process_line_def Let_def startsWith_def substring_def)

text \<open>
  Claim C8: outside code-block mode, a line whose trimmed form is \<open># \<close>, \<open>## \<close> or
  \<open>### \<close> followed by a remainder gives a heading of level 1, 2 or 3 whose rich text
  is one run without annotations holding the remainder as it stands: the remainder does
  not go through parseRichText, so the delimiters in it stay literal.
\<close>

theorem process_line_heading:
  "(\<not> inCodeBlock st \<and> trim line = ''# '' @ rest \<longrightarrow>
      process_line st line = push (Heading_1 [Plain rest]) st) \<and>
   (\<not> inCodeBlock st \<and> trim line = ''## '' @ rest \<longrightarrow>
      process_line st line = push (Heading_2 [Plain rest]) st) \<and>
   (\<not> inCodeBlock st \<and> trim line = ''### '' @ rest \<longrightarrow>
      process_line st line = push (Heading_3 [Plain rest]) st) \<and>
   markdownToBlocks ''## **Setup** and `run`'' = [Heading_2 [Plain ''**Setup** and `run`'']]"
proof (intro conjI impI)
  show "markdownToBlocks ''## **Setup** and `run`'' = [Heading_2 [Plain ''**Setup** and `run`'']]"
    by code_simp
qed (simp_all add: process_line_heading_1 process_line_heading_2 process_line_heading_3)

text \<open>
  The theorem at one line for each level.
\<close>

theorem process_line_heading_witness:
  "trim ''  # A *b*  '' = ''# '' @ ''A *b*'' \<and>
   trim ''## A'' = ''## '' @ ''A'' \<and> trim ''### A'' = ''### '' @ ''A'' \<and>
   blocks (process_line initial_state ''  # A *b*  '') = [Heading_1 [Plain ''A *b*'']] \<and>
   blocks (process_line initial_state ''## A'') = [Heading_2 [Plain ''A'']] \<and>
   blocks (process_line initial_state ''### A'') = [Heading_3 [Plain ''A'']]"
proof -
  have n: "\<not> inCodeBlock initial_state" by (simp add: initial_state_def)
  have t1: "trim ''  # A *b*  '' = ''# '' @ ''A *b*''" by code_simp
  have t2: "trim ''## A'' = ''## '' @ ''A''" by code_simp
  have t3: "trim ''### A'' = ''### '' @ ''A''" by code_simp
  have b: "blocks initial_state = []" by (simp add: initial_state_def)
  from process_line_heading[of initial_state "''  # A *b*  ''" "''A *b*''"] n t1
  have "process_line initial_state ''  # A *b*  '' = push (Heading_1 [Plain ''A *b*'']) initial_state"
    by blast
  moreover from process_line_heading[of initial_state "''## A''" "''A''"] n t2
  have "process_line initial_state ''## A'' = push (Heading_2 [Plain ''A'']) initial_state"
    by blast
  moreover from process_line_heading[of initial_state "''### A''" "''A''"] n t3
  have "process_line initial_state ''### A'' = push (Heading_3 [Plain ''A'']) initial_state"
    by blast
  ultimately show ?thesis using t1 t2 t3 b by (simp add: push_def)
qed

section \<open>Properties of createPage\<close>

lemma split_newline_from_not_Nil: "split_newline_from cur s \<noteq> []"
  by (induction s arbitrary: cur) simp_all

lemma createPage_returns:
  "defaultParentId \<noteq> [] \<Longrightarrow>
   \<exists>req. createPage defaultParentType defaultParentId title contentMarkdown None = Inr req"
proof -
  assume "defaultParentId \<noteq> []"
  moreover obtain l ls where "split_newline contentMarkdown = l # ls"
    using split_newline_from_not_Nil[of "[]" contentMarkdown]
    by (cases "split_newline contentMarkdown") (auto simp: split_newline_def)
  ultimately show ?thesis by (simp add: createPage_def Let_def)
qed

lemma markdownToBlocks_leading_heading:
  assumes "split_newline markdown = l # ls" "startsWith (trim l) ''# ''"
  shows "markdownToBlocks markdown =
    Heading_1 [Plain (substring (trim l) 2)] # blocks (scan_lines initial_state ls)"
proof -
  from assms(2) have t: "trim l = ''# '' @ substring (trim l) 2"
    unfolding startsWith_def substring_def by (metis append_take_drop_id length_Cons list.size(3) numeral_2_eq_2)
  have n: "\<not> inCodeBlock initial_state" by (simp add: initial_state_def)
  have "process_line initial_state l = push (Heading_1 [Plain (substring (trim l) 2)]) initial_state"
    using n t by (rule process_line_heading_1)
  also have "\<dots> = initial_state\<lparr>blocks := [Heading_1 [Plain (substring (trim l) 2)]] @ blocks initial_state\<rparr>"
    by (simp add: push_def initial_state_def)
  finally have "scan_lines initial_state (l # ls) =
      (scan_lines initial_state ls)\<lparr>blocks := [Heading_1 [Plain (substring (trim l) 2)]] @
         blocks (scan_lines initial_state ls)\<rparr>"
    by (simp only: scan_lines_Cons scan_lines_blocks_prefix)
  then show ?thesis by (simp add: markdownToBlocks_def assms(1))
qed

text \<open>
  Claim C10: when createPage builds its request, and \<open>l\<close> is the first line of the
  document: if \<open>l\<close> trimmed starts with \<open># \<close>, the title of the page is the text after
  that prefix, the first block produced is the heading of level 1 and the body is the
  rest of the blocks; otherwise the title is the caller's and the body is every block.
  A heading that comes after a leading blank line is not promoted: the caller's title
  is used and the heading stays in the body.
\<close>

theorem createPage_title_promotion:
  "(createPage defaultParentType defaultParentId title contentMarkdown parentConfig = Inr req \<and>
    split_newline contentMarkdown = l # ls \<longrightarrow>
      (startsWith (trim l) ''# '' \<longrightarrow>
         snd (properties req) = substring (trim l) 2 \<and>
         markdownToBlocks contentMarkdown = Heading_1 [Plain (substring (trim l) 2)] # children req) \<and>
      (\<not> startsWith (trim l) ''# '' \<longrightarrow>
         snd (properties req) = title \<and> children req = markdownToBlocks contentMarkdown)) \<and>
   createPage ''database'' ''db1'' ''Video'' ([CHR 0x0A] @ ''# Guide'' @ [CHR 0x0A] @ ''text'') None =
     Inr \<lparr>parent = (''database_id'', ''db1''), properties = (''Name'', ''Video''),
          children = [Heading_1 [Plain ''Guide''], Paragraph [Plain ''text'']]\<rparr>"
proof (intro conjI impI)
  assume a: "createPage defaultParentType defaultParentId title contentMarkdown parentConfig = Inr req \<and>
    split_newline contentMarkdown = l # ls"
  assume s: "startsWith (trim l) ''# ''"
  from a s have m: "markdownToBlocks contentMarkdown =
      Heading_1 [Plain (substring (trim l) 2)] # blocks (scan_lines initial_state ls)"
    by (intro markdownToBlocks_leading_heading) simp_all
  from a s show "snd (properties req) = substring (trim l) 2"
    by (auto simp: createPage_def Let_def split: if_splits option.splits)
  from a s m show "markdownToBlocks contentMarkdown =
      Heading_1 [Plain (substring (trim l) 2)] # children req"
    by (auto simp: createPage_def Let_def split: if_splits option.splits)
next
  assume a: "createPage defaultParentType defaultParentId title contentMarkdown parentConfig = Inr req \<and>
    split_newline contentMarkdown = l # ls"
  assume s: "\<not> startsWith (trim l) ''# ''"
  from a s show "snd (properties req) = title"
    by (auto simp: createPage_def Let_def split: if_splits option.splits)
  from a s show "children req = markdownToBlocks contentMarkdown"
    by (auto simp: createPage_def Let_def split: if_splits option.splits)
next
  show "createPage ''database'' ''db1'' ''Video'' ([CHR 0x0A] @ ''# Guide'' @ [CHR 0x0A] @ ''text'') None =
     Inr \<lparr>parent = (''database_id'', ''db1''), properties = (''Name'', ''Video''),
          children = [Heading_1 [Plain ''Guide''], Paragraph [Plain ''text'']]\<rparr>"
    by code_simp
qed

text \<open>
  The theorem at a document whose first line is a heading.
\<close>

theorem createPage_title_promotion_witness:
  "createPage ''database'' [] ''Video'' (''  # Guide'' @ [CHR 0x0A] @ ''text'') (Some (''page'', ''p1'')) =
     Inr \<lparr>parent = (''page_id'', ''p1''), properties = (''title'', ''Guide''),
          children = [Paragraph [Plain ''text'']]\<rparr> \<and>
   split_newline (''  # Guide'' @ [CHR 0x0A] @ ''text'') = ''  # Guide'' # [''text''] \<and>
   startsWith (trim ''  # Guide'') ''# '' \<and>
   markdownToBlocks (''  # Guide'' @ [CHR 0x0A] @ ''text'') =
     [Heading_1 [Plain ''Guide''], Paragraph [Plain ''text'']]"
proof -
  let ?md = "''  # Guide'' @ [CHR 0x0A] @ ''text''"
  let ?req = "\<lparr>parent = (''page_id'', ''p1''), properties = (''title'', ''Guide''),
          children = [Paragraph [Plain ''text'']]\<rparr>"
  have c: "createPage ''database'' [] ''Video'' ?md (Some (''page'', ''p1'')) = Inr ?req"
    by code_simp
  have s: "split_newline ?md = ''  # Guide'' # [''text'']" by code_simp
  have h: "startsWith (trim ''  # Guide'') ''# ''" by code_simp
  have g: "substring (trim ''  # Guide'') 2 = ''Guide''" by code_simp
  from createPage_title_promotion[of "''database''" "[]" "''Video''" ?md "Some (''page'', ''p1'')"
      ?req "''  # Guide''" "[''text'']"] c s h
  have "markdownToBlocks ?md = Heading_1 [Plain (substring (trim ''  # Guide'') 2)] # children ?req"
    by blast
  with c s h g show ?thesis by simp
qed

end
